theory Spec2Isabelle
  imports Main
begin

section \<open>The data provider of AutoGrid (createDataProvider)\<close>

text \<open>
  The request of the grid, \<open>GridDataProviderParams\<close>: the fields the provider reads. A
  sorter of the grid has a path and a direction, \<open>'asc'\<close>, \<open>'desc'\<close> or \<open>null\<close>; the
  direction is a string that may be absent. Page numbers, page sizes and item counts are
  JavaScript numbers holding integers and are modelled as \<open>int\<close>.
\<close>

record GridSorterDefinition =
  path :: string
  direction :: "string option"

record GridDataProviderParams =
  page :: int
  params_pageSize :: int
  sortOrders :: "GridSorterDefinition list"

text \<open>The request sent to the service: \<open>Pageable\<close>, \<open>Sort\<close>, \<open>Order\<close> and \<open>Direction\<close>.\<close>

datatype Direction = ASC | DESC

record Order =
  property :: string
  order_direction :: Direction
  ignoreCase :: bool

record Sort =
  orders :: "Order list"

record Pageable =
  pageNumber :: int
  pageSize :: int
  sort_p :: Sort

text \<open>
  What one run of the provider does: the calls of \<open>service.list\<close> it makes, in order, each
  with its request and its filter; the arguments of the grid callback (\<open>None\<close> when the
  promise of the service is rejected and the callback is never reached); whether
  \<open>grid.recalculateColumnWidths\<close> is scheduled; and the closure variable \<open>first\<close> after
  the run.
\<close>

record ('f, 'item) provider_run =
  list_calls :: "(Pageable \<times> 'f option) list"
  callback :: "('item list \<times> int option) option"
  recalculate_scheduled :: bool
  first_after :: bool

text \<open>
  \<open>createDataProvider\<close>: the service is the function \<open>list\<close>, whose promise resolves with
  the items (\<open>Inr\<close>) or is rejected (\<open>Inl\<close>); \<open>current\<close> is \<open>filter.current\<close> and
  \<open>cacheSize\<close> is \<open>grid._cache.size\<close>, both read when the request is served; \<open>first\<close> is
  the closure variable of the provider. The constants \<open>pageNumber\<close> and \<open>pageSize\<close> of the
  source are \<open>pn\<close> and \<open>ps\<close> here.
\<close>

definition createDataProvider ::
  "(Pageable \<Rightarrow> 'f option \<Rightarrow> 'e + 'item list) \<Rightarrow> 'f option \<Rightarrow> int option \<Rightarrow> bool \<Rightarrow>
     GridDataProviderParams \<Rightarrow> ('f, 'item) provider_run" where
  "createDataProvider list current cacheSize first params =
     (let sort =
            \<lparr>orders =
               map (\<lambda>order.
                      \<lparr>property = path order,
                       order_direction = (if direction order = Some ''asc'' then ASC else DESC),
                       ignoreCase = False\<rparr>)
                 (filter (\<lambda>order. direction order \<noteq> None) (sortOrders params))\<rparr>;
          pn = page params;
          ps = params_pageSize params;
          req = \<lparr>pageNumber = pn, pageSize = ps, sort_p = sort\<rparr>
      in case list req current of
           Inl e \<Rightarrow>
             \<lparr>list_calls = [(req, current)], callback = None,
              recalculate_scheduled = False, first_after = first\<rparr>
         | Inr items \<Rightarrow>
             (let size =
                    (if int (length items) = ps then
                       (let size = (pn + 1) * ps + 1
                        in case cacheSize of
                             None \<Rightarrow> Some size
                           | Some c \<Rightarrow> if size < c then None else Some size)
                     else Some (pn * ps + int (length items)))
              in \<lparr>list_calls = [(req, current)], callback = Some (items, size),
                  recalculate_scheduled = first, first_after = False\<rparr>))"

section \<open>Filters\<close>

text \<open>
  The filter types of the frontend: \<open>FilterUnion\<close> is the union of \<open>AndFilter\<close>,
  \<open>OrFilter\<close> and \<open>PropertyStringFilter\<close>. The type of
  matchers, the enumeration \<open>Matcher\<close>, is the parameter \<open>'m\<close>.
\<close>

record 'm PropertyStringFilter =
  propertyId :: string
  filterValue :: string
  matcher :: 'm

datatype 'm FilterUnion =
    And "'m FilterUnion list"
  | Or "'m FilterUnion list"
  | PropertyString "'m PropertyStringFilter"

text \<open>
  Modelled from the spec: the generated filter types of the frontend (\<open>AndFilter\<close>,
  \<open>OrFilter\<close>, \<open>PropertyStringFilter\<close>) and the enumeration \<open>Matcher\<close> are declared
  outside the sources of the component. The object the frontend writes for a filter
  is \<open>{'@type': 'and', children: [...]}\<close> as AutoGrid writes its internal filter,
  \<open>{'@type': 'propertyString', propertyId, matcher, filterValue}\<close> as the views and the
  tests write a property filter, and for an \<open>OrFilter\<close> the object of an \<open>AndFilter\<close>
  with \<open>'or'\<close>, the name the Java hierarchy declares for it, as its \<open>'@type'\<close>. The names
  of the matchers are the parameter \<open>mname\<close>.
\<close>

datatype json = JString string | JArray "json list" | JObject "(string \<times> json) list"

fun toJSON :: "('m \<Rightarrow> string) \<Rightarrow> 'm FilterUnion \<Rightarrow> json" where
  "toJSON mname (And cs) =
     JObject [(''@type'', JString ''and''), (''children'', JArray (map (toJSON mname) cs))]"
| "toJSON mname (Or cs) =
     JObject [(''@type'', JString ''or''), (''children'', JArray (map (toJSON mname) cs))]"
| "toJSON mname (PropertyString pf) =
     JObject [(''@type'', JString ''propertyString''),
              (''propertyId'', JString (propertyId pf)),
              (''matcher'', JString (mname (matcher pf))),
              (''filterValue'', JString (filterValue pf))]"

text \<open>A filter and all the filters nested in it: what one filter object sends.\<close>

fun nested :: "'m FilterUnion \<Rightarrow> 'm FilterUnion list" where
  "nested (And cs) = And cs # concat (map nested cs)"
| "nested (Or cs) = Or cs # concat (map nested cs)"
| "nested (PropertyString pf) = [PropertyString pf]"

text \<open>
  The Java side, \<open>Filter.java\<close>: the annotation \<open>@JsonSubTypes\<close> lists each subclass
  with its name, and \<open>@JsonTypeInfo(use = NAME, include = PROPERTY)\<close> names no property,
  so the name travels in the default property of \<open>Id.NAME\<close>, which Jackson defines as
  \<open>@type\<close>. Reading an object, Jackson takes the string under that property and the
  subclass declared with that name.
\<close>

datatype FilterClass = OrFilter | AndFilter | PropertyStringFilter

datatype JsonTypeInfo_Id = NAME | CLASS | MINIMAL_CLASS

datatype JsonTypeInfo_As = PROPERTY | WRAPPER_OBJECT | WRAPPER_ARRAY

record JsonTypeInfo =
  info_use :: JsonTypeInfo_Id
  info_include :: JsonTypeInfo_As
  info_property :: string

fun getDefaultPropertyName :: "JsonTypeInfo_Id \<Rightarrow> string" where
  "getDefaultPropertyName NAME = ''@type''"
| "getDefaultPropertyName CLASS = ''@class''"
| "getDefaultPropertyName MINIMAL_CLASS = ''@c''"

definition Filter_JsonTypeInfo :: JsonTypeInfo where
  "Filter_JsonTypeInfo = \<lparr>info_use = NAME, info_include = PROPERTY, info_property = ''''\<rparr>"

definition Filter_JsonSubTypes :: "(FilterClass \<times> string) list" where
  "Filter_JsonSubTypes =
     [(OrFilter, ''or''), (AndFilter, ''and''), (PropertyStringFilter, ''propertyString'')]"

definition typeProperty :: "JsonTypeInfo \<Rightarrow> string" where
  "typeProperty info =
     (if info_property info = '''' then getDefaultPropertyName (info_use info)
      else info_property info)"

definition typeName :: "json \<Rightarrow> string option" where
  "typeName j =
     (case j of
        JObject props \<Rightarrow>
          (case map_of props (typeProperty Filter_JsonTypeInfo) of
             Some (JString name) \<Rightarrow> Some name
           | _ \<Rightarrow> None)
      | _ \<Rightarrow> None)"

definition subtypeOf :: "string \<Rightarrow> FilterClass option" where
  "subtypeOf name = map_of (map (\<lambda>(c, n). (n, c)) Filter_JsonSubTypes) name"

definition readFilter :: "json \<Rightarrow> FilterClass option" where
  "readFilter j = (case typeName j of None \<Rightarrow> None | Some name \<Rightarrow> subtypeOf name)"

section \<open>AutoGrid\<close>

text \<open>
  \<open>findIndex\<close> and \<open>splice(i, 1)\<close> of a JavaScript array: the index of the first element
  with the property, or \<open>-1\<close>; the array without its element at \<open>i\<close>.
\<close>

fun findIndex :: "('a \<Rightarrow> bool) \<Rightarrow> 'a list \<Rightarrow> int" where
  "findIndex P [] = -1"
| "findIndex P (x # xs) = (if P x then 0 else (let i = findIndex P xs in if i < 0 then -1 else i + 1))"

definition splice1 :: "'a list \<Rightarrow> nat \<Rightarrow> 'a list" where
  "splice1 xs i = take i xs @ drop (Suc i) xs"

text \<open>
  \<open>(f as PropertyStringFilter).propertyId\<close>: the property of a property filter, and
  \<open>undefined\<close> on the other filter objects.
\<close>

fun propertyId_of :: "'m FilterUnion \<Rightarrow> string option" where
  "propertyId_of (PropertyString pf) = Some (propertyId pf)"
| "propertyId_of (And cs) = None"
| "propertyId_of (Or cs) = None"

text \<open>
  The objects of the component. The header-filter setter changes the \<open>children\<close> array of
  the internal filter in place, and \<open>{...internalFilter}\<close> makes a new object around the
  same array, so the arrays live in a store and an internal \<open>AndFilter\<close> object is known by
  the address of its array. A filter object handed in by the parent is never changed by
  the component; React tells such objects apart by reference (\<open>Object.is\<close>), so it
  carries its reference beside its content.
\<close>

type_synonym addr = nat

record 'm FilterObject =
  ref :: nat
  content :: "'m FilterUnion"

datatype 'm FilterRef = External "'m FilterObject" | Internal addr

record 'm AutoGridProps =
  experimentalFilter :: "'m FilterObject option"
  noHeaderFilters :: "bool option"
  refreshTrigger :: "int option"

datatype grid_call = ClearCache

text \<open>
  The state of one AutoGrid instance between two events:
  \<^item> \<open>store\<close>: the \<open>children\<close> arrays;
  \<^item> \<open>internalFilter\<close>: the state variable as the latest render saw it, which is what the
    closure \<open>setHeaderPropertyFilter\<close> of that render works on;
  \<^item> \<open>pending\<close>: the object given to \<open>setInternalFilter\<close> since that render, if any (every
    call in the component passes a newly made object, so React always sees a change);
  \<^item> \<open>dataProviderFilter\<close>: \<open>dataProviderFilter.current\<close>;
  \<^item> \<open>last_props\<close>: the props of the latest render, whose values are the dependencies the
    effects compare with (\<open>None\<close> before the first render);
  \<^item> \<open>grid_calls\<close>: the calls the component made on the grid element, in order.
\<close>

record 'm AutoGrid_state =
  store :: "addr \<Rightarrow> 'm FilterUnion list"
  internalFilter :: addr
  pending :: "addr option"
  dataProviderFilter :: "'m FilterRef option"
  last_props :: "'m AutoGridProps option"
  grid_calls :: "grid_call list"

text \<open>The filter object behind a reference, as it reads when the service is called.\<close>

fun deref :: "(addr \<Rightarrow> 'm FilterUnion list) \<Rightarrow> 'm FilterRef \<Rightarrow> 'm FilterUnion" where
  "deref s (External obj) = content obj"
| "deref s (Internal a) = And (s a)"

text \<open>
  Before the first render: \<open>useState({'@type': 'and', children: []})\<close> and
  \<open>useRef(undefined)\<close>.
\<close>

definition initial :: "'m AutoGrid_state" where
  "initial =
     \<lparr>store = (\<lambda>a. []), internalFilter = 0, pending = None, dataProviderFilter = None,
      last_props = None, grid_calls = []\<rparr>"

text \<open>An address no live object uses: where a new array is put.\<close>

definition fresh :: "'m AutoGrid_state \<Rightarrow> addr" where
  "fresh st =
     Suc (max (internalFilter st)
            (max (case pending st of Some a \<Rightarrow> a | None \<Rightarrow> 0)
                 (case dataProviderFilter st of Some (Internal a) \<Rightarrow> a | _ \<Rightarrow> 0)))"

definition setInternalFilter :: "addr \<Rightarrow> 'm AutoGrid_state \<Rightarrow> 'm AutoGrid_state" where
  "setInternalFilter a st = st\<lparr>pending := Some a\<rparr>"

text \<open>
  \<open>setHeaderPropertyFilter\<close>: what the setter does to the \<open>children\<close> array, with the
  variable \<open>changed\<close>; then the setter itself, on the array of the internal filter of the
  latest render.
\<close>

definition setChildren ::
  "'m FilterUnion list \<Rightarrow> 'm PropertyStringFilter \<Rightarrow> 'm FilterUnion list \<times> bool" where
  "setChildren cs propertyFilter =
     (let filterIndex = findIndex (\<lambda>f. propertyId_of f = Some (propertyId propertyFilter)) cs
      in if filterValue propertyFilter = '''' then
           (if filterIndex \<ge> 0 then (splice1 cs (nat filterIndex), True) else (cs, False))
         else if filterIndex \<ge> 0 then (cs[nat filterIndex := PropertyString propertyFilter], True)
         else (cs @ [PropertyString propertyFilter], True))"

definition setHeaderPropertyFilter ::
  "'m PropertyStringFilter \<Rightarrow> 'm AutoGrid_state \<Rightarrow> 'm AutoGrid_state" where
  "setHeaderPropertyFilter propertyFilter st =
     (let a = internalFilter st;
          (cs, changed) = setChildren (store st a) propertyFilter;
          st' = st\<lparr>store := (store st)(a := cs)\<rparr>
      in if changed then setInternalFilter a st' else st')"

text \<open>
  The two effects of the component on filters, each with React's rule: an effect runs
  after the first render, and after a later render when one of its dependencies is not
  the same as in the render before.
\<close>

definition refreshTrigger_of :: "'m AutoGridProps \<Rightarrow> int" where
  "refreshTrigger_of props = (case refreshTrigger props of Some n \<Rightarrow> n | None \<Rightarrow> 0)"

definition noHeaderFilters_changed :: "'m AutoGridProps \<Rightarrow> 'm AutoGrid_state \<Rightarrow> bool" where
  "noHeaderFilters_changed props st =
     (case last_props st of
        None \<Rightarrow> True
      | Some old \<Rightarrow> noHeaderFilters props \<noteq> noHeaderFilters old)"

definition filter_changed :: "'m AutoGridProps \<Rightarrow> 'm AutoGrid_state \<Rightarrow> bool" where
  "filter_changed props st =
     (case last_props st of
        None \<Rightarrow> True
      | Some old \<Rightarrow>
          map_option ref (experimentalFilter props) \<noteq> map_option ref (experimentalFilter old)
          \<or> pending st \<noteq> None
          \<or> refreshTrigger_of props \<noteq> refreshTrigger_of old)"

definition removeFiltering :: "'m AutoGridProps \<Rightarrow> 'm AutoGrid_state \<Rightarrow> 'm AutoGrid_state" where
  "removeFiltering props st =
     (if noHeaderFilters props = Some True then
        (let a = fresh st in setInternalFilter a (st\<lparr>store := (store st)(a := [])\<rparr>))
      else st)"

definition updateFiltering ::
  "'m AutoGridProps \<Rightarrow> addr \<Rightarrow> bool \<Rightarrow> 'm AutoGrid_state \<Rightarrow> 'm AutoGrid_state" where
  "updateFiltering props internal grid st =
     (if grid then
        st\<lparr>dataProviderFilter :=
             Some (case experimentalFilter props of
                     Some obj \<Rightarrow> External obj
                   | None \<Rightarrow> Internal internal),
           grid_calls := grid_calls st @ [ClearCache]\<rparr>
      else st)"

text \<open>
  One render of \<open>AutoGrid\<close> with its effects. \<open>grid\<close> says whether \<open>ref.current\<close> holds
  the grid element when the effects run. The render reads the state variable (the
  pending object, if there is one); the effects run in the order of the source, and the
  second one works on the \<open>internalFilter\<close> of this render even when the first one has
  called \<open>setInternalFilter\<close>. The effect that installs the provider on the grid and
  the columns of the render do not touch the filter and are left out; the provider
  itself is \<open>createDataProvider\<close> above.
\<close>

definition AutoGrid :: "'m AutoGridProps \<Rightarrow> bool \<Rightarrow> 'm AutoGrid_state \<Rightarrow> 'm AutoGrid_state" where
  "AutoGrid props grid st =
     (let internal = (case pending st of Some a \<Rightarrow> a | None \<Rightarrow> internalFilter st);
          st0 = st\<lparr>internalFilter := internal, pending := None\<rparr>;
          st1 = (if noHeaderFilters_changed props st then removeFiltering props st0 else st0);
          st2 = (if filter_changed props st then updateFiltering props internal grid st1 else st1)
      in st2\<lparr>last_props := Some props\<rparr>)"

text \<open>
  A request of the grid in a state of the component: the provider reads
  \<open>filter.current\<close> then, and the service receives the object as it is at that moment.
\<close>

definition current_filter :: "'m AutoGrid_state \<Rightarrow> 'm FilterUnion option" where
  "current_filter st = map_option (deref (store st)) (dataProviderFilter st)"

definition request ::
  "(Pageable \<Rightarrow> 'm FilterUnion option \<Rightarrow> 'e + 'item list) \<Rightarrow> int option \<Rightarrow> bool \<Rightarrow>
     GridDataProviderParams \<Rightarrow> 'm AutoGrid_state \<Rightarrow> ('m FilterUnion, 'item) provider_run" where
  "request list cacheSize first params st =
     createDataProvider list (current_filter st) cacheSize first params"

text \<open>
  The states the component can be in: from the initial state, renders and calls of the
  header-filter setter follow each other in any order.
\<close>

inductive reachable :: "'m AutoGrid_state \<Rightarrow> bool" where
  start: "reachable initial"
| render: "reachable st \<Longrightarrow> reachable (AutoGrid props grid st)"
| setter: "reachable st \<Longrightarrow> reachable (setHeaderPropertyFilter propertyFilter st)"

text \<open>
  The children of an internal filter are well formed when they are property filters
  with a value, one at most for each property.
\<close>

definition children_ok :: "'m FilterUnion list \<Rightarrow> bool" where
  "children_ok cs \<longleftrightarrow>
     distinct (map propertyId_of cs)
     \<and> list_all (\<lambda>c. case c of PropertyString pf \<Rightarrow> filterValue pf \<noteq> '''' | _ \<Rightarrow> False) cs"

definition store_ok :: "'m AutoGrid_state \<Rightarrow> bool" where
  "store_ok st \<longleftrightarrow> (\<forall>a. children_ok (store st a))"

section \<open>BackbonePlugin\<close>

text \<open>
  \<open>BackbonePlugin.execute\<close>. The classes \<open>EndpointProcessor\<close> and \<open>EntityProcessor\<close> are
  declared outside the source of the plugin, so what \<open>process()\<close> does is a parameter: from the
  collection and the model either the exception thrown or the model as the processor
  leaves it. \<open>SharedStorage\<close> holds the OpenAPI model, and whatever else it holds is the
  rest of the record. The result is the list of the calls made, in order, and either the
  exception that leaves \<open>execute\<close> or the storage afterwards.
\<close>

record 'api SharedStorage =
  openAPI :: 'api

datatype 'c plugin_call =
    GetOpenAPI
  | EndpointProcessor_process 'c
  | EntityProcessor_process 'c

definition execute ::
  "('c \<Rightarrow> 'api \<Rightarrow> 'x + 'api) \<Rightarrow> ('c \<Rightarrow> 'api \<Rightarrow> 'x + 'api) \<Rightarrow> 'c \<Rightarrow> 'c \<Rightarrow>
     ('api, 'z) SharedStorage_scheme \<Rightarrow>
     'c plugin_call list \<times> ('x + ('api, 'z) SharedStorage_scheme)" where
  "execute endpointProcessor entityProcessor endpoints entities storage =
     (let model = openAPI storage
      in case endpointProcessor endpoints model of
           Inl x \<Rightarrow> ([GetOpenAPI, EndpointProcessor_process endpoints], Inl x)
         | Inr model1 \<Rightarrow>
             (case entityProcessor entities model1 of
                Inl x \<Rightarrow>
                  ([GetOpenAPI, EndpointProcessor_process endpoints,
                    EntityProcessor_process entities], Inl x)
              | Inr model2 \<Rightarrow>
                  ([GetOpenAPI, EndpointProcessor_process endpoints,
                    EntityProcessor_process entities],
                   Inr (storage\<lparr>openAPI := model2\<rparr>))))"

section \<open>TypeArgumentModel\<close>

text \<open>
  Modelled from the spec: the classes \<open>TypeArgumentSourceModel\<close> and
  \<open>TypeArgumentReflectionModel\<close> are declared outside the source of the interface. Each is a constructor
  that keeps its arguments, the source model built from a bytecode-scanned
  \<open>TypeArgument\<close> and the reflection model from a reflected \<open>AnnotatedType\<close>, and both
  leave the default methods of the interface as they are.

  A Java reference that may be \<open>null\<close> is an \<open>option\<close>; \<open>Objects.requireNonNull\<close> throws
  \<open>NullPointerException\<close> on \<open>null\<close>. The two static methods \<open>of\<close> are told apart by the
  type of the origin.
\<close>

datatype ('ta, 'at, 'p) TypeArgumentModel =
    TypeArgumentSourceModel 'ta 'p
  | TypeArgumentReflectionModel 'at "'p option"

datatype java_exception = NullPointerException | ServletException

definition requireNonNull :: "'a option \<Rightarrow> java_exception + 'a" where
  "requireNonNull obj = (case obj of None \<Rightarrow> Inl NullPointerException | Some v \<Rightarrow> Inr v)"

definition of_TypeArgument ::
  "'ta option \<Rightarrow> 'p option \<Rightarrow> java_exception + ('ta, 'at, 'p) TypeArgumentModel" where
  "of_TypeArgument origin parent =
     (case requireNonNull origin of
        Inl e \<Rightarrow> Inl e
      | Inr origin' \<Rightarrow>
          (case requireNonNull parent of
             Inl e \<Rightarrow> Inl e
           | Inr parent' \<Rightarrow> Inr (TypeArgumentSourceModel origin' parent')))"

definition of_AnnotatedType ::
  "'at option \<Rightarrow> 'p option \<Rightarrow> java_exception + ('ta, 'at, 'p) TypeArgumentModel" where
  "of_AnnotatedType origin parent =
     (case requireNonNull origin of
        Inl e \<Rightarrow> Inl e
      | Inr origin' \<Rightarrow> Inr (TypeArgumentReflectionModel origin' parent))"

definition isTypeArgument :: "('ta, 'at, 'p) TypeArgumentModel \<Rightarrow> bool" where
  "isTypeArgument m = True"

section \<open>EndpointsValidator\<close>

text \<open>
  Modelled from the spec: the source of the class \<open>EndpointsValidator\<close> is missing,
  only its test is there. \<open>process\<close> returns normally when the class set is \<open>null\<close> (a CDI
  environment) or holds no class annotated with \<open>@Endpoint\<close>, and throws
  \<open>ServletException\<close> when the set holds such a class and the configured class to check
  cannot be loaded from the classpath; with such a class and a loadable class to check
  it returns normally, as the first test expects. A class is its name and the names of
  its annotations; \<open>classToCheck\<close> is the field \<open>setClassToCheck\<close> sets, and
  \<open>loadable\<close> tells which class names the classpath can load.
\<close>

record java_class =
  class_name :: string
  annotations :: "string list"

definition isEndpoint :: "java_class \<Rightarrow> bool" where
  "isEndpoint c \<longleftrightarrow> ''Endpoint'' \<in> set (annotations c)"

definition process ::
  "string \<Rightarrow> (string \<Rightarrow> bool) \<Rightarrow> java_class list option \<Rightarrow> java_exception + unit" where
  "process classToCheck loadable classSet =
     (case classSet of
        None \<Rightarrow> Inr ()
      | Some classes \<Rightarrow>
          if list_ex isEndpoint classes \<and> \<not> loadable classToCheck then Inl ServletException
          else Inr ())"

section \<open>Values for the examples\<close>

definition firstName_Jan :: "unit PropertyStringFilter" where
  "firstName_Jan = \<lparr>propertyId = ''firstName'', filterValue = ''Jan'', matcher = ()\<rparr>"

definition firstName_Jo :: "unit PropertyStringFilter" where
  "firstName_Jo = \<lparr>propertyId = ''firstName'', filterValue = ''Jo'', matcher = ()\<rparr>"

definition firstName_empty :: "unit PropertyStringFilter" where
  "firstName_empty = \<lparr>propertyId = ''firstName'', filterValue = '''', matcher = ()\<rparr>"

definition lastName_Lo :: "unit PropertyStringFilter" where
  "lastName_Lo = \<lparr>propertyId = ''lastName'', filterValue = ''Lo'', matcher = ()\<rparr>"

definition plain_props :: "unit AutoGridProps" where
  "plain_props = \<lparr>experimentalFilter = None, noHeaderFilters = None, refreshTrigger = None\<rparr>"

definition two_names :: "Pageable \<Rightarrow> unit FilterUnion option \<Rightarrow> unit + string list" where
  "two_names req f = Inr [''Jane'', ''John'']"

definition first_page :: GridDataProviderParams where
  "first_page = \<lparr>page = 0, params_pageSize = 50, sortOrders = []\<rparr>"

definition WithConnectEndpoint :: java_class where
  "WithConnectEndpoint =
     \<lparr>class_name = ''WithConnectEndpoint'', annotations = [''Endpoint'']\<rparr>"

section \<open>The data provider: requests, sort orders and sizes\<close>

text \<open>
  C1. Every request makes the provider call \<open>service.list\<close> exactly once, with a
  pageable whose page number and page size are those of the request; when the service
  returns items, the callback of the grid receives exactly these items, and when the
  promise of the service is rejected the callback is not called.
\<close>

theorem provider_lists_once:
  fixes list :: "Pageable \<Rightarrow> 'f option \<Rightarrow> 'e + 'item list"
  shows "\<exists>req. list_calls (createDataProvider list current cacheSize first params) = [(req, current)]
           \<and> pageNumber req = page params
           \<and> pageSize req = params_pageSize params
           \<and> map_option fst (callback (createDataProvider list current cacheSize first params))
                = (case list req current of Inl e \<Rightarrow> None | Inr items \<Rightarrow> Some items)"
  by (simp add: createDataProvider_def Let_def split: sum.split)

theorem provider_lists_once_witness:
  "\<exists>req. list_calls (createDataProvider two_names None None True first_page) = [(req, None)]
         \<and> pageNumber req = 0 \<and> pageSize req = 50
         \<and> map_option fst (callback (createDataProvider two_names None None True first_page))
              = Some [''Jane'', ''John'']"
  using provider_lists_once [of two_names None None True first_page]
  by (simp add: two_names_def first_page_def)

text \<open>
  C2. The sort of the request sent to the service has one order for each sort order of
  the grid whose direction is not null, in the same relative order: its property is the
  path, its direction is ASC when the direction of the grid is \<open>'asc'\<close> and DESC
  otherwise, and it never ignores case.
\<close>

theorem provider_sort:
  fixes list :: "Pageable \<Rightarrow> 'f option \<Rightarrow> 'e + 'item list"
  shows "\<exists>req. list_calls (createDataProvider list current cacheSize first params) = [(req, current)]
     \<and> (let kept = filter (\<lambda>order. direction order \<noteq> None) (sortOrders params);
             sent = orders (sort_p req)
         in length sent = length kept
            \<and> (\<forall>i < length kept.
                  property (sent ! i) = path (kept ! i)
                  \<and> order_direction (sent ! i)
                      = (if direction (kept ! i) = Some ''asc'' then ASC else DESC)
                  \<and> ignoreCase (sent ! i) = False))"
  by (simp add: createDataProvider_def Let_def split: sum.split)

theorem provider_sort_witness:
  "\<exists>req. list_calls (createDataProvider two_names None None True
            (first_page\<lparr>sortOrders :=
               [\<lparr>path = ''firstName'', direction = Some ''asc''\<rparr>,
                \<lparr>path = ''lastName'', direction = None\<rparr>,
                \<lparr>path = ''email'', direction = Some ''desc''\<rparr>]\<rparr>)) = [(req, None)]
         \<and> length (orders (sort_p req)) = 2
         \<and> map property (orders (sort_p req)) = [''firstName'', ''email'']
         \<and> map order_direction (orders (sort_p req)) = [ASC, DESC]
         \<and> map ignoreCase (orders (sort_p req)) = [False, False]"
  using provider_sort [of two_names None None True
      "first_page\<lparr>sortOrders :=
         [\<lparr>path = ''firstName'', direction = Some ''asc''\<rparr>,
          \<lparr>path = ''lastName'', direction = None\<rparr>,
          \<lparr>path = ''email'', direction = Some ''desc''\<rparr>]\<rparr>"]
  by (simp add: createDataProvider_def two_names_def first_page_def)

text \<open>
  C8. When the service returns fewer items than the page size, the size given to the
  grid is \<open>pageNumber * pageSize\<close> plus the number of items. When it returns exactly
  \<open>pageSize\<close> items, the size is \<open>(pageNumber + 1) * pageSize + 1\<close>, unless the cached size
  of the grid is defined and larger, in which case no size is given; so a size given
  for a full page is never smaller than a defined cached size.
\<close>

theorem provider_size:
  fixes list :: "Pageable \<Rightarrow> 'f option \<Rightarrow> 'e + 'item list"
  assumes "callback (createDataProvider list current cacheSize first params) = Some (items, sz)"
  shows "(int (length items) < params_pageSize params \<longrightarrow>
            sz = Some (page params * params_pageSize params + int (length items)))
       \<and> (int (length items) = params_pageSize params \<longrightarrow>
            sz = (if \<exists>c. cacheSize = Some c \<and> (page params + 1) * params_pageSize params + 1 < c
                  then None
                  else Some ((page params + 1) * params_pageSize params + 1)))
       \<and> (\<forall>c s. int (length items) = params_pageSize params \<and> cacheSize = Some c \<and> sz = Some s
              \<longrightarrow> c \<le> s)"
  using assms
  by (auto simp add: createDataProvider_def Let_def
      split: sum.splits option.splits if_splits)

theorem provider_size_witness:
  "callback (createDataProvider two_names None (Some 120) True first_page)
     = Some ([''Jane'', ''John''], Some 2)
   \<and> callback (createDataProvider two_names None (Some 120) True
        \<lparr>page = 3, params_pageSize = 2, sortOrders = []\<rparr>)
     = Some ([''Jane'', ''John''], None)
   \<and> callback (createDataProvider two_names None (Some 9) True
        \<lparr>page = 3, params_pageSize = 2, sortOrders = []\<rparr>)
     = Some ([''Jane'', ''John''], Some 9)"
proof -
  have 1: "callback (createDataProvider two_names None (Some 120) True first_page)
      = Some ([''Jane'', ''John''], Some 2)"
    by (simp add: createDataProvider_def two_names_def first_page_def)
  have 2: "callback (createDataProvider two_names None (Some 120) True
        \<lparr>page = 3, params_pageSize = 2, sortOrders = []\<rparr>)
      = Some ([''Jane'', ''John''], None)"
    by (simp add: createDataProvider_def two_names_def)
  have 3: "callback (createDataProvider two_names None (Some 9) True
        \<lparr>page = 3, params_pageSize = 2, sortOrders = []\<rparr>)
      = Some ([''Jane'', ''John''], Some 9)"
    by (simp add: createDataProvider_def two_names_def)
  from provider_size [OF 1] provider_size [OF 2] provider_size [OF 3] 1 2 3
  show ?thesis by simp
qed

section \<open>The filter of the component\<close>

lemma findIndex_none: "findIndex P xs < 0 \<longleftrightarrow> (\<forall>x \<in> set xs. \<not> P x)"
  by (induction xs) (auto simp: Let_def)

lemma findIndex_first:
  "0 \<le> findIndex P xs \<Longrightarrow>
     nat (findIndex P xs) < length xs \<and> P (xs ! nat (findIndex P xs))
     \<and> (\<forall>j < nat (findIndex P xs). \<not> P (xs ! j))"
proof (induction xs)
  case Nil
  then show ?case by simp
next
  case (Cons x xs)
  show ?case
  proof (cases "P x")
    case True
    then show ?thesis by simp
  next
    case False
    with Cons.prems have nonneg: "0 \<le> findIndex P xs"
      by (simp add: Let_def split: if_splits)
    then have eq: "findIndex P (x # xs) = findIndex P xs + 1"
      using False by (simp add: Let_def)
    from Cons.IH [OF nonneg] have ih: "nat (findIndex P xs) < length xs"
      "P (xs ! nat (findIndex P xs))" "\<forall>j < nat (findIndex P xs). \<not> P (xs ! j)"
      by simp_all
    have n: "nat (findIndex P xs + 1) = Suc (nat (findIndex P xs))"
      using nonneg by simp
    show ?thesis
      unfolding eq n using ih False
      by (auto simp: nth_Cons split: nat.splits)
  qed
qed

lemma children_ok_Nil: "children_ok []"
  by (simp add: children_ok_def)

lemma distinct_splice1: "distinct xs \<Longrightarrow> distinct (splice1 xs i)"
proof (induction xs arbitrary: i)
  case Nil
  then show ?case by (simp add: splice1_def)
next
  case (Cons x xs)
  show ?case
  proof (cases i)
    case 0
    with Cons.prems show ?thesis by (simp add: splice1_def)
  next
    case (Suc j)
    from Cons.prems have "x \<notin> set (splice1 xs j)"
      by (auto simp: splice1_def dest: in_set_takeD in_set_dropD)
    moreover from Cons have "distinct (splice1 xs j)" by simp
    ultimately show ?thesis using Suc by (simp add: splice1_def)
  qed
qed

lemma map_splice1: "map f (splice1 xs i) = splice1 (map f xs) i"
  by (simp add: splice1_def take_map drop_map)

lemma set_splice1: "set (splice1 xs i) \<subseteq> set xs"
  by (auto simp: splice1_def dest: in_set_takeD in_set_dropD)

lemma children_ok_splice1: "children_ok cs \<Longrightarrow> children_ok (splice1 cs i)"
  using set_splice1 [of cs i]
  by (auto simp: children_ok_def map_splice1 distinct_splice1 list_all_iff)

lemma children_ok_update:
  assumes "children_ok cs" "i < length cs" "propertyId_of (cs ! i) = Some (propertyId pf)"
    "filterValue pf \<noteq> ''''"
  shows "children_ok (cs[i := PropertyString pf])"
proof -
  have "map propertyId_of (cs[i := PropertyString pf]) = (map propertyId_of cs)[i := Some (propertyId pf)]"
    by (simp add: map_update)
  also have "\<dots> = map propertyId_of cs"
    using assms(2,3) by (metis list_update_id map_update)
  finally have "distinct (map propertyId_of (cs[i := PropertyString pf]))"
    using assms(1) by (simp add: children_ok_def)
  moreover have "list_all (\<lambda>c. case c of PropertyString pf \<Rightarrow> filterValue pf \<noteq> '''' | _ \<Rightarrow> False)
      (cs[i := PropertyString pf])"
    using assms(1,4) by (auto simp: children_ok_def list_all_iff dest!: set_update_subset_insert [THEN subsetD])
  ultimately show ?thesis by (simp add: children_ok_def)
qed

lemma children_ok_append:
  assumes "children_ok cs" "\<forall>c \<in> set cs. propertyId_of c \<noteq> Some (propertyId pf)"
    "filterValue pf \<noteq> ''''"
  shows "children_ok (cs @ [PropertyString pf])"
  using assms by (auto simp: children_ok_def)

lemma children_ok_setChildren: "children_ok cs \<Longrightarrow> children_ok (fst (setChildren cs pf))"
  using findIndex_first [of "\<lambda>f. propertyId_of f = Some (propertyId pf)" cs]
    findIndex_none [of "\<lambda>f. propertyId_of f = Some (propertyId pf)" cs]
  by (auto simp: setChildren_def Let_def intro: children_ok_splice1 children_ok_update children_ok_append)

lemma store_ok_initial: "store_ok initial"
  by (simp add: store_ok_def initial_def children_ok_Nil)

lemma store_ok_setter: "store_ok st \<Longrightarrow> store_ok (setHeaderPropertyFilter pf st)"
  by (auto simp: store_ok_def setHeaderPropertyFilter_def setInternalFilter_def Let_def
      split: prod.splits dest: children_ok_setChildren [where pf = pf]) (metis fst_conv children_ok_setChildren)+

lemma store_ok_render: "store_ok st \<Longrightarrow> store_ok (AutoGrid props grid st)"
  by (auto simp: store_ok_def AutoGrid_def Let_def removeFiltering_def updateFiltering_def
      setInternalFilter_def children_ok_Nil)

lemma reachable_store_ok: "reachable st \<Longrightarrow> store_ok st"
  by (induction rule: reachable.induct)
     (auto intro: store_ok_render store_ok_setter store_ok_initial)


lemma splice1_filter:
  "distinct (map f xs) \<Longrightarrow> 0 \<le> findIndex (\<lambda>x. f x = k) xs \<Longrightarrow>
     splice1 xs (nat (findIndex (\<lambda>x. f x = k) xs)) = filter (\<lambda>x. f x \<noteq> k) xs"
proof (induction xs)
  case Nil
  then show ?case by simp
next
  case (Cons x xs)
  show ?case
  proof (cases "f x = k")
    case True
    from Cons.prems(1) have "f x \<notin> f ` set xs" by simp
    with True have "\<forall>y \<in> set xs. f y \<noteq> k" by (metis imageI)
    then have "filter (\<lambda>x. f x \<noteq> k) xs = xs" by (simp add: filter_id_conv)
    with True show ?thesis by (simp add: splice1_def)
  next
    case False
    with Cons.prems have nonneg: "0 \<le> findIndex (\<lambda>x. f x = k) xs"
      by (simp add: Let_def split: if_splits)
    then have n: "nat (findIndex (\<lambda>x. f x = k) (x # xs)) = Suc (nat (findIndex (\<lambda>x. f x = k) xs))"
      using False by (simp add: Let_def)
    from Cons.IH nonneg Cons.prems(1)
    have "splice1 xs (nat (findIndex (\<lambda>x. f x = k) xs)) = filter (\<lambda>x. f x \<noteq> k) xs" by simp
    then show ?thesis using False unfolding n by (simp add: splice1_def)
  qed
qed

lemma setChildren_empty:
  assumes "children_ok cs" "filterValue pf = ''''"
  shows "fst (setChildren cs pf) = filter (\<lambda>c. propertyId_of c \<noteq> Some (propertyId pf)) cs"
proof (cases "0 \<le> findIndex (\<lambda>f. propertyId_of f = Some (propertyId pf)) cs")
  case True
  with assms show ?thesis
    by (simp add: setChildren_def children_ok_def splice1_filter)
next
  case False
  then have "\<forall>c \<in> set cs. propertyId_of c \<noteq> Some (propertyId pf)"
    using findIndex_none [of "\<lambda>f. propertyId_of f = Some (propertyId pf)" cs] by simp
  then have "filter (\<lambda>c. propertyId_of c \<noteq> Some (propertyId pf)) cs = cs"
    by (simp add: filter_id_conv)
  with False assms show ?thesis by (simp add: setChildren_def)
qed

lemma setChildren_replace:
  assumes "filterValue pf \<noteq> ''''" "\<exists>c \<in> set cs. propertyId_of c = Some (propertyId pf)"
  shows "\<exists>i < length cs. propertyId_of (cs ! i) = Some (propertyId pf)
           \<and> setChildren cs pf = (cs[i := PropertyString pf], True)"
proof -
  let ?i = "findIndex (\<lambda>f. propertyId_of f = Some (propertyId pf)) cs"
  from assms(2) have nonneg: "0 \<le> ?i"
    using findIndex_none [of "\<lambda>f. propertyId_of f = Some (propertyId pf)" cs] by auto
  from findIndex_first [OF nonneg] have "nat ?i < length cs"
    "propertyId_of (cs ! nat ?i) = Some (propertyId pf)" by simp_all
  moreover have "setChildren cs pf = (cs[nat ?i := PropertyString pf], True)"
    using assms(1) nonneg by (simp add: setChildren_def)
  ultimately show ?thesis by blast
qed

lemma setChildren_append:
  assumes "filterValue pf \<noteq> ''''" "\<forall>c \<in> set cs. propertyId_of c \<noteq> Some (propertyId pf)"
  shows "setChildren cs pf = (cs @ [PropertyString pf], True)"
proof -
  from assms(2) have "findIndex (\<lambda>f. propertyId_of f = Some (propertyId pf)) cs < 0"
    by (simp add: findIndex_none)
  with assms(1) show ?thesis by (simp add: setChildren_def)
qed

lemma setChildren_value:
  assumes "filterValue pf \<noteq> ''''"
  shows "snd (setChildren cs pf) \<and> PropertyString pf \<in> set (fst (setChildren cs pf))"
proof (cases "\<exists>c \<in> set cs. propertyId_of c = Some (propertyId pf)")
  case True
  from setChildren_replace [OF assms True] show ?thesis
    by (auto simp: set_update_memI)
next
  case False
  with setChildren_append [OF assms, of cs] show ?thesis by simp
qed

lemma setter_store:
  "store (setHeaderPropertyFilter pf st) (internalFilter st) = fst (setChildren (store st (internalFilter st)) pf)"
  by (simp add: setHeaderPropertyFilter_def setInternalFilter_def Let_def split: prod.splits)

lemma setter_pending:
  "snd (setChildren (store st (internalFilter st)) pf) \<Longrightarrow>
     pending (setHeaderPropertyFilter pf st) = Some (internalFilter st)"
  by (cases "setChildren (store st (internalFilter st)) pf")
     (simp add: setHeaderPropertyFilter_def setInternalFilter_def Let_def)

lemma fresh_gt: "internalFilter st < fresh st"
  by (simp add: fresh_def)

lemma render_pending:
  assumes "pending st = Some a" "experimentalFilter props = None"
  shows "dataProviderFilter (AutoGrid props True st) = Some (Internal a)
       \<and> internalFilter (AutoGrid props True st) = a
       \<and> store (AutoGrid props True st) a = store st a"
proof -
  have changed: "filter_changed props st"
    using assms(1) by (simp add: filter_changed_def split: option.splits)
  have "a \<noteq> fresh (st\<lparr>internalFilter := a, pending := None\<rparr>)"
    using fresh_gt [of "st\<lparr>internalFilter := a, pending := None\<rparr>"] by simp
  then show ?thesis
    using assms changed
    by (simp add: AutoGrid_def Let_def removeFiltering_def updateFiltering_def setInternalFilter_def)
qed

text \<open>
  The array is shared: while the filter reference holds the internal filter of the
  latest render, a request sees what the setter has written even before the next
  render.
\<close>

lemma setter_seen_before_render:
  assumes "dataProviderFilter st = Some (Internal (internalFilter st))"
    and "filterValue pf \<noteq> ''''"
  shows "\<exists>cs. current_filter (setHeaderPropertyFilter pf st) = Some (And cs)
           \<and> PropertyString pf \<in> set cs"
proof -
  have "dataProviderFilter (setHeaderPropertyFilter pf st) = dataProviderFilter st"
    by (simp add: setHeaderPropertyFilter_def setInternalFilter_def Let_def split: prod.splits)
  then have "current_filter (setHeaderPropertyFilter pf st)
      = Some (And (fst (setChildren (store st (internalFilter st)) pf)))"
    using assms(1) by (simp add: current_filter_def setter_store)
  then show ?thesis
    using setChildren_value [OF assms(2)] by simp
qed

lemmas example_defs =
  firstName_Jan_def firstName_Jo_def firstName_empty_def lastName_Lo_def plain_props_def
  two_names_def first_page_def

lemmas component_defs =
  AutoGrid_def initial_def setHeaderPropertyFilter_def setChildren_def setInternalFilter_def
  removeFiltering_def updateFiltering_def filter_changed_def noHeaderFilters_changed_def
  refreshTrigger_of_def fresh_def splice1_def current_filter_def request_def
  createDataProvider_def

text \<open>
  C3. When a render with the grid element in place finds \<open>experimentalFilter\<close>, the
  internal filter or \<open>refreshTrigger\<close> changed, the component sets the filter
  reference to \<open>experimentalFilter\<close> when it is defined and to the internal
  \<open>AndFilter\<close> otherwise, and clears the cache of the grid once; a request then
  sends that filter, and a request in any state sends what the filter reference
  holds at that moment.
\<close>

theorem filter_effect:
  fixes list :: "Pageable \<Rightarrow> 'm FilterUnion option \<Rightarrow> 'e + 'item list"
  assumes "filter_changed props st"
  shows "(let st' = AutoGrid props True st
          in dataProviderFilter st' =
               Some (case experimentalFilter props of
                       Some obj \<Rightarrow> External obj
                     | None \<Rightarrow> Internal (internalFilter st'))
           \<and> grid_calls st' = grid_calls st @ [ClearCache]
           \<and> (\<exists>req. list_calls (request list cacheSize first params st') =
                 [(req, Some (case experimentalFilter props of
                                Some obj \<Rightarrow> content obj
                              | None \<Rightarrow> And (store st' (internalFilter st'))))]))
       \<and> (\<exists>req. list_calls (request list cacheSize first params s) =
             [(req, map_option (deref (store s)) (dataProviderFilter s))])"
  using assms
  by (auto simp add: AutoGrid_def Let_def removeFiltering_def updateFiltering_def setInternalFilter_def
      request_def createDataProvider_def current_filter_def split: sum.split option.split)

theorem filter_effect_witness:
  "filter_changed (plain_props\<lparr>refreshTrigger := Some 1\<rparr>) (AutoGrid plain_props True initial)
   \<and> dataProviderFilter
        (AutoGrid (plain_props\<lparr>refreshTrigger := Some 1\<rparr>) True (AutoGrid plain_props True initial))
       = Some (Internal 0)
   \<and> grid_calls
        (AutoGrid (plain_props\<lparr>refreshTrigger := Some 1\<rparr>) True (AutoGrid plain_props True initial))
       = [ClearCache, ClearCache]
   \<and> filter_changed
        (plain_props\<lparr>experimentalFilter := Some \<lparr>ref = 7, content = PropertyString firstName_Jan\<rparr>\<rparr>)
        (AutoGrid plain_props True initial)
   \<and> (\<exists>req. list_calls (request two_names None True first_page
          (AutoGrid
             (plain_props\<lparr>experimentalFilter :=
                Some \<lparr>ref = 7, content = PropertyString firstName_Jan\<rparr>\<rparr>)
             True (AutoGrid plain_props True initial)))
        = [(req, Some (PropertyString firstName_Jan))])"
proof -
  have 1: "filter_changed (plain_props\<lparr>refreshTrigger := Some 1\<rparr>) (AutoGrid plain_props True initial)"
    by (simp add: component_defs example_defs)
  have 2: "filter_changed
      (plain_props\<lparr>experimentalFilter := Some \<lparr>ref = 7, content = PropertyString firstName_Jan\<rparr>\<rparr>)
      (AutoGrid plain_props True initial)"
    by (simp add: component_defs example_defs)
  have i: "internalFilter
      (AutoGrid (plain_props\<lparr>refreshTrigger := Some 1\<rparr>) True (AutoGrid plain_props True initial)) = 0"
    by (simp add: component_defs example_defs)
  have g: "grid_calls (AutoGrid plain_props True initial) = [ClearCache]"
    by (simp add: component_defs example_defs)
  from filter_effect [OF 1, of two_names None True first_page initial]
    filter_effect [OF 2, of two_names None True first_page initial] 1 2 i g
  show ?thesis by (simp add: Let_def plain_props_def)
qed

text \<open>
  C4. In a state the component can reach, with no \<open>experimentalFilter\<close>: after the
  header filter of a property is applied with a value that is not empty and the
  component has rendered, a request makes \<open>service.list\<close> receive an \<open>AndFilter\<close>
  whose children contain that property filter; after the empty value is then applied
  for the same property and the component has rendered, the next request sends an
  \<open>AndFilter\<close> whose children are those of the request before without that property
  filter: the child is gone, no property filter for the property is left, and the
  other children are as they were.
\<close>

theorem header_filter_reaches_service:
  fixes list :: "Pageable \<Rightarrow> 'm FilterUnion option \<Rightarrow> 'e + 'item list"
    and list' :: "Pageable \<Rightarrow> 'm FilterUnion option \<Rightarrow> 'e + 'item list"
  assumes "reachable st"
    and "filterValue pf \<noteq> ''''"
    and "propertyId pf0 = propertyId pf" and "filterValue pf0 = ''''"
    and "experimentalFilter props = None" and "experimentalFilter props' = None"
  shows "(let st1 = AutoGrid props True (setHeaderPropertyFilter pf st);
              st2 = AutoGrid props' True (setHeaderPropertyFilter pf0 st1)
          in \<exists>req1 cs1 req2 cs2.
               list_calls (request list cacheSize first params st1) = [(req1, Some (And cs1))]
               \<and> PropertyString pf \<in> set cs1
               \<and> list_calls (request list' cacheSize' first' params' st2) = [(req2, Some (And cs2))]
               \<and> PropertyString pf \<notin> set cs2
               \<and> (\<forall>q. PropertyString q \<in> set cs2 \<longrightarrow> propertyId q \<noteq> propertyId pf)
               \<and> cs2 = filter (\<lambda>c. c \<noteq> PropertyString pf) cs1
               \<and> (\<forall>c \<in> set cs2. propertyId_of c \<noteq> Some (propertyId pf)))"
proof -
  define a where "a = internalFilter st"
  define st0 where "st0 = setHeaderPropertyFilter pf st"
  define st1 where "st1 = AutoGrid props True st0"
  define st0' where "st0' = setHeaderPropertyFilter pf0 st1"
  define st2 where "st2 = AutoGrid props' True st0'"
  have v: "snd (setChildren (store st a) pf)" "PropertyString pf \<in> set (fst (setChildren (store st a) pf))"
    using setChildren_value [OF assms(2)] by simp_all
  have p0: "pending st0 = Some a"
    unfolding st0_def a_def using v(1) by (simp add: setter_pending a_def)
  have s0: "store st0 a = fst (setChildren (store st a) pf)"
    unfolding st0_def a_def by (rule setter_store)
  from render_pending [OF p0 assms(5)]
  have r1: "dataProviderFilter st1 = Some (Internal a)" "internalFilter st1 = a"
    "store st1 a = store st0 a"
    by (simp_all add: st1_def)
  have in1: "PropertyString pf \<in> set (store st1 a)"
    using v(2) s0 r1(3) by simp
  have c1: "current_filter st1 = Some (And (store st1 a))"
    by (simp add: current_filter_def r1(1))
  have call1: "\<exists>req1. list_calls (request list cacheSize first params st1)
      = [(req1, Some (And (store st1 a)))]"
    by (simp add: request_def createDataProvider_def Let_def c1 split: sum.split)
  have reach1: "reachable st1"
    unfolding st1_def st0_def by (intro reachable.intros assms(1))
  then have ok1: "children_ok (store st1 a)"
    using reachable_store_ok by (auto simp: store_ok_def)
  have idx: "0 \<le> findIndex (\<lambda>f. propertyId_of f = Some (propertyId pf0)) (store st1 a)"
    using in1 findIndex_none [of "\<lambda>f. propertyId_of f = Some (propertyId pf0)" "store st1 a"] assms(3)
    by fastforce
  then have ch: "snd (setChildren (store st1 a) pf0)"
    using assms(4) by (simp add: setChildren_def)
  have p0': "pending st0' = Some a"
    unfolding st0'_def using setter_pending [of st1 pf0] ch r1(2) by simp
  have s0': "store st0' a = filter (\<lambda>c. propertyId_of c \<noteq> Some (propertyId pf0)) (store st1 a)"
    unfolding st0'_def using setter_store [of pf0 st1] setChildren_empty [OF ok1 assms(4)] r1(2) by simp
  from render_pending [OF p0' assms(6)]
  have r2: "dataProviderFilter st2 = Some (Internal a)" "store st2 a = store st0' a"
    by (simp_all add: st2_def)
  have c2: "current_filter st2 = Some (And (store st2 a))"
    by (simp add: current_filter_def r2(1))
  have call2: "\<exists>req2. list_calls (request list' cacheSize' first' params' st2)
      = [(req2, Some (And (store st2 a)))]"
    by (simp add: request_def createDataProvider_def Let_def c2 split: sum.split)
  have inj: "inj_on propertyId_of (set (store st1 a))"
    using ok1 by (simp add: children_ok_def distinct_map)
  have same: "propertyId_of c = Some (propertyId pf) \<longleftrightarrow> c = PropertyString pf"
    if "c \<in> set (store st1 a)" for c
  proof
    assume "propertyId_of c = Some (propertyId pf)"
    then have e: "propertyId_of c = propertyId_of (PropertyString pf)" by simp
    show "c = PropertyString pf"
      by (rule inj_onD [OF inj e that in1])
  next
    assume "c = PropertyString pf"
    then show "propertyId_of c = Some (propertyId pf)" by simp
  qed
  have eq2: "store st2 a = filter (\<lambda>c. c \<noteq> PropertyString pf) (store st1 a)"
    unfolding r2(2) s0' assms(3) by (rule filter_cong) (simp_all add: same)
  have gone: "PropertyString pf \<notin> set (store st2 a)"
    by (simp add: eq2)
  have none2: "\<forall>c \<in> set (store st2 a). propertyId_of c \<noteq> Some (propertyId pf)"
    using r2(2) s0' assms(3) by simp
  have noq: "\<forall>q. PropertyString q \<in> set (store st2 a) \<longrightarrow> propertyId q \<noteq> propertyId pf"
  proof (intro allI impI)
    fix q assume q: "PropertyString q \<in> set (store st2 a)"
    then have "PropertyString q \<in> set (store st1 a)" "PropertyString q \<noteq> PropertyString pf"
      by (simp_all add: eq2)
    with same [of "PropertyString q"] show "propertyId q \<noteq> propertyId pf" by simp
  qed
  from call1 call2 in1 gone noq eq2 none2
  have "\<exists>req1 cs1 req2 cs2.
      list_calls (request list cacheSize first params st1) = [(req1, Some (And cs1))]
      \<and> PropertyString pf \<in> set cs1
      \<and> list_calls (request list' cacheSize' first' params' st2) = [(req2, Some (And cs2))]
      \<and> PropertyString pf \<notin> set cs2
      \<and> (\<forall>q. PropertyString q \<in> set cs2 \<longrightarrow> propertyId q \<noteq> propertyId pf)
      \<and> cs2 = filter (\<lambda>c. c \<noteq> PropertyString pf) cs1
      \<and> (\<forall>c \<in> set cs2. propertyId_of c \<noteq> Some (propertyId pf))"
    by blast
  then show ?thesis
    by (simp add: Let_def st1_def st0_def st2_def st0'_def)
qed

theorem header_filter_reaches_service_witness:
  "reachable (AutoGrid plain_props True initial)
   \<and> (\<exists>req. list_calls (request two_names None True first_page
          (AutoGrid plain_props True
             (setHeaderPropertyFilter firstName_Jan (AutoGrid plain_props True initial))))
        = [(req, Some (And [PropertyString firstName_Jan]))])
   \<and> (\<exists>req. list_calls (request two_names None True first_page
          (AutoGrid plain_props True
             (setHeaderPropertyFilter firstName_empty
                (AutoGrid plain_props True
                   (setHeaderPropertyFilter firstName_Jan (AutoGrid plain_props True initial))))))
        = [(req, Some (And []))])"
proof -
  have r: "reachable (AutoGrid plain_props True (initial :: unit AutoGrid_state))"
    by (intro reachable.render reachable.start)
  have h: "filterValue firstName_Jan \<noteq> ''''" "propertyId firstName_empty = propertyId firstName_Jan"
    "filterValue firstName_empty = ''''" "experimentalFilter plain_props = None"
    by (simp_all add: example_defs)
  have 1: "current_filter (AutoGrid plain_props True
      (setHeaderPropertyFilter firstName_Jan (AutoGrid plain_props True initial)))
      = Some (And [PropertyString firstName_Jan])"
    by (simp add: component_defs example_defs)
  have 2: "current_filter (AutoGrid plain_props True
      (setHeaderPropertyFilter firstName_empty
        (AutoGrid plain_props True
          (setHeaderPropertyFilter firstName_Jan (AutoGrid plain_props True initial)))))
      = Some (And [])"
    by (simp add: component_defs example_defs)
  from header_filter_reaches_service [OF r h h(4), of two_names None True first_page
      two_names None True first_page] r 1 2
  show ?thesis
    by (simp add: Let_def request_def createDataProvider_def two_names_def first_page_def)
qed

text \<open>
  C9. In every state the component can reach, the internal filter, the one of the
  latest render as well as one set since, is an \<open>AndFilter\<close> whose children are
  property filters with a value that is not empty, one at most for each property.
  The setter with the empty value deletes the entry of the property; with another
  value it replaces the entry of a property already filtered, in place, and appends
  an entry for a new property; and the children stay well formed.
\<close>

theorem internal_filter_invariant:
  assumes "reachable st"
  shows "(\<exists>cs. deref (store st) (Internal (internalFilter st)) = And cs \<and> children_ok cs)
       \<and> (case pending st of Some b \<Rightarrow> children_ok (store st b) | None \<Rightarrow> True)
       \<and> (let cs = store st (internalFilter st);
               cs' = store (setHeaderPropertyFilter pf st) (internalFilter st);
               filtered = (\<exists>c \<in> set cs. propertyId_of c = Some (propertyId pf))
           in (filterValue pf = '''' \<longrightarrow>
                 cs' = filter (\<lambda>c. propertyId_of c \<noteq> Some (propertyId pf)) cs)
            \<and> (filterValue pf \<noteq> '''' \<and> filtered \<longrightarrow>
                 (\<exists>i < length cs. propertyId_of (cs ! i) = Some (propertyId pf)
                    \<and> cs' = cs[i := PropertyString pf]))
            \<and> (filterValue pf \<noteq> '''' \<and> \<not> filtered \<longrightarrow> cs' = cs @ [PropertyString pf])
            \<and> children_ok cs')"
proof -
  from assms have ok: "\<And>a. children_ok (store st a)"
    using reachable_store_ok by (auto simp: store_ok_def)
  have 1: "\<exists>cs. deref (store st) (Internal (internalFilter st)) = And cs \<and> children_ok cs"
    using ok by simp
  have 2: "case pending st of Some b \<Rightarrow> children_ok (store st b) | None \<Rightarrow> True"
    using ok by (simp split: option.split)
  let ?cs = "store st (internalFilter st)"
  have 3: "filterValue pf = '''' \<Longrightarrow>
      fst (setChildren ?cs pf) = filter (\<lambda>c. propertyId_of c \<noteq> Some (propertyId pf)) ?cs"
    using setChildren_empty [OF ok] by simp
  have 4: "filterValue pf \<noteq> '''' \<Longrightarrow> \<exists>c \<in> set ?cs. propertyId_of c = Some (propertyId pf) \<Longrightarrow>
      \<exists>i < length ?cs. propertyId_of (?cs ! i) = Some (propertyId pf)
         \<and> fst (setChildren ?cs pf) = ?cs[i := PropertyString pf]"
    using setChildren_replace [of pf ?cs] by fastforce
  have 5: "filterValue pf \<noteq> '''' \<Longrightarrow> \<not> (\<exists>c \<in> set ?cs. propertyId_of c = Some (propertyId pf)) \<Longrightarrow>
      fst (setChildren ?cs pf) = ?cs @ [PropertyString pf]"
    using setChildren_append [of pf ?cs] by simp
  have 6: "children_ok (fst (setChildren ?cs pf))"
    using ok by (rule children_ok_setChildren)
  show ?thesis
    using 1 2 3 4 5 6 unfolding Let_def setter_store by blast
qed

theorem internal_filter_invariant_witness:
  "reachable (setHeaderPropertyFilter firstName_Jan (AutoGrid plain_props True initial))
   \<and> store (setHeaderPropertyFilter firstName_Jan (AutoGrid plain_props True initial)) 0
       = [PropertyString firstName_Jan]
   \<and> children_ok [PropertyString firstName_Jan]
   \<and> store (setHeaderPropertyFilter firstName_empty
        (setHeaderPropertyFilter firstName_Jan (AutoGrid plain_props True initial))) 0 = []
   \<and> store (setHeaderPropertyFilter firstName_Jo
        (setHeaderPropertyFilter firstName_Jan (AutoGrid plain_props True initial))) 0
       = [PropertyString firstName_Jo]
   \<and> store (setHeaderPropertyFilter lastName_Lo
        (setHeaderPropertyFilter firstName_Jan (AutoGrid plain_props True initial))) 0
       = [PropertyString firstName_Jan, PropertyString lastName_Lo]"
proof -
  let ?st = "setHeaderPropertyFilter firstName_Jan (AutoGrid plain_props True initial)"
  have r: "reachable ?st"
    by (intro reachable.setter reachable.render reachable.start)
  have i: "internalFilter ?st = 0"
    by (simp add: component_defs example_defs)
  have s: "store ?st 0 = [PropertyString firstName_Jan]"
    by (simp add: component_defs example_defs)
  from internal_filter_invariant [OF r, of firstName_empty]
    internal_filter_invariant [OF r, of firstName_Jo]
    internal_filter_invariant [OF r, of lastName_Lo] r i s
  show ?thesis
    by (simp add: Let_def example_defs)
qed

section \<open>The type names of filters\<close>

lemma typeName_toJSON:
  "typeName (toJSON mname f)
     = Some (case f of And cs \<Rightarrow> ''and'' | Or cs \<Rightarrow> ''or''
             | PropertyString pf \<Rightarrow> ''propertyString'')"
  by (cases f) (simp_all add: typeName_def typeProperty_def Filter_JsonTypeInfo_def)

lemma readFilter_toJSON:
  "readFilter (toJSON mname f)
     = Some (case f of And cs \<Rightarrow> AndFilter | Or cs \<Rightarrow> OrFilter
             | PropertyString pf \<Rightarrow> PropertyStringFilter)"
  by (cases f)
     (simp_all add: readFilter_def typeName_toJSON subtypeOf_def Filter_JsonSubTypes_def
        del: toJSON.simps)

text \<open>
  C5. The Java hierarchy carries the type name of a filter in the property \<open>@type\<close> and
  declares the names \<open>or\<close>, \<open>and\<close> and \<open>propertyString\<close>; these are exactly the values
  the filter objects of the frontend have under \<open>'@type'\<close>, the object of each kind is
  read as the subclass of its kind, and so every filter object the frontend sends, and
  every filter nested in it, names a declared subclass; the internal filter of AutoGrid
  names \<open>AndFilter\<close>.
\<close>

theorem filter_type_names:
  fixes f :: "'m FilterUnion"
  shows "typeProperty Filter_JsonTypeInfo = ''@type''
   \<and> map snd Filter_JsonSubTypes = [''or'', ''and'', ''propertyString'']
   \<and> {n. \<exists>g :: 'm FilterUnion. typeName (toJSON mname g) = Some n}
       = set (map snd Filter_JsonSubTypes)
   \<and> readFilter (toJSON mname (Or cs)) = Some OrFilter
   \<and> readFilter (toJSON mname (And cs)) = Some AndFilter
   \<and> readFilter (toJSON mname (PropertyString pf)) = Some PropertyStringFilter
   \<and> (\<forall>g \<in> set (nested f). readFilter (toJSON mname g) \<noteq> None)
   \<and> readFilter (toJSON mname (deref s (Internal a))) = Some AndFilter"
proof -
  have "{n. \<exists>g :: 'm FilterUnion. typeName (toJSON mname g) = Some n}
      = {''or'', ''and'', ''propertyString''}"
  proof (intro equalityI subsetI)
    fix n assume "n \<in> {n. \<exists>g :: 'm FilterUnion. typeName (toJSON mname g) = Some n}"
    then obtain g :: "'m FilterUnion" where "typeName (toJSON mname g) = Some n" by blast
    then show "n \<in> {''or'', ''and'', ''propertyString''}"
      by (cases g) (simp_all add: typeName_toJSON del: toJSON.simps)
  next
    fix n assume n: "n \<in> {''or'', ''and'', ''propertyString''}"
    have "typeName (toJSON mname (Or [] :: 'm FilterUnion)) = Some ''or''"
      "typeName (toJSON mname (And [] :: 'm FilterUnion)) = Some ''and''"
      "typeName (toJSON mname (PropertyString undefined :: 'm FilterUnion)) = Some ''propertyString''"
      by (simp_all add: typeName_toJSON del: toJSON.simps)
    with n show "n \<in> {n. \<exists>g :: 'm FilterUnion. typeName (toJSON mname g) = Some n}"
      by blast
  qed
  then have exact: "{n. \<exists>g :: 'm FilterUnion. typeName (toJSON mname g) = Some n}
      = set (map snd Filter_JsonSubTypes)"
    by (simp add: Filter_JsonSubTypes_def insert_commute)
  have all: "\<forall>g \<in> set (nested f). readFilter (toJSON mname g) \<noteq> None"
    by (simp add: readFilter_toJSON del: toJSON.simps)
  show ?thesis
    using exact all
    by (simp add: readFilter_toJSON typeProperty_def Filter_JsonTypeInfo_def
        Filter_JsonSubTypes_def del: toJSON.simps)
qed

theorem filter_type_names_witness:
  "typeProperty Filter_JsonTypeInfo = ''@type''
   \<and> map (\<lambda>g. readFilter (toJSON (\<lambda>m. ''CONTAINS'') g))
       (nested (And [PropertyString firstName_Jan, Or [PropertyString lastName_Lo]]))
     = [Some AndFilter, Some PropertyStringFilter, Some OrFilter, Some PropertyStringFilter]
   \<and> toJSON (\<lambda>m. ''CONTAINS'') (And [PropertyString firstName_Jan])
     = JObject [(''@type'', JString ''and''),
         (''children'', JArray [JObject [(''@type'', JString ''propertyString''),
            (''propertyId'', JString ''firstName''), (''matcher'', JString ''CONTAINS''),
            (''filterValue'', JString ''Jan'')]])]"
  using filter_type_names
    [where f = "And [PropertyString firstName_Jan, Or [PropertyString lastName_Lo]]"
       and mname = "\<lambda>m. ''CONTAINS''"]
  by (simp add: readFilter_toJSON firstName_Jan_def)

section \<open>BackbonePlugin\<close>

text \<open>
  C6. \<open>execute\<close> takes the OpenAPI model from the shared storage, then has the
  EndpointProcessor process the whole collection of endpoints, then the
  EntityProcessor process the whole collection of entities on the model the first step
  left, in this order; when neither throws, the storage afterwards holds the model of
  the second step and is otherwise unchanged, and nothing else is produced.
\<close>

theorem execute_two_steps:
  fixes endpointProcessor :: "'c \<Rightarrow> 'api \<Rightarrow> 'x + 'api"
    and storage :: "('api, 'z) SharedStorage_scheme"
  shows "take 2 (fst (execute endpointProcessor entityProcessor endpoints entities storage))
           = [GetOpenAPI, EndpointProcessor_process endpoints]
       \<and> (case endpointProcessor endpoints (openAPI storage) of
            Inl x \<Rightarrow>
              execute endpointProcessor entityProcessor endpoints entities storage
                = ([GetOpenAPI, EndpointProcessor_process endpoints], Inl x)
          | Inr model1 \<Rightarrow>
              fst (execute endpointProcessor entityProcessor endpoints entities storage)
                = [GetOpenAPI, EndpointProcessor_process endpoints,
                   EntityProcessor_process entities]
              \<and> snd (execute endpointProcessor entityProcessor endpoints entities storage)
                = (case entityProcessor entities model1 of
                     Inl x \<Rightarrow> Inl x
                   | Inr model2 \<Rightarrow> Inr (storage\<lparr>openAPI := model2\<rparr>)))"
  by (simp add: execute_def Let_def split: sum.split)

theorem execute_two_steps_witness:
  "execute (\<lambda>c m. Inr (m @ c) :: unit + string list) (\<lambda>c m. Inr (m @ c))
      [''PersonEndpoint''] [''Person''] \<lparr>openAPI = [''info'']\<rparr>
     = ([GetOpenAPI, EndpointProcessor_process [''PersonEndpoint''],
         EntityProcessor_process [''Person'']],
        Inr \<lparr>openAPI = [''info'', ''PersonEndpoint'', ''Person'']\<rparr>)"
  using execute_two_steps [of "\<lambda>c m. Inr (m @ c) :: unit + string list" "\<lambda>c m. Inr (m @ c)"
      "[''PersonEndpoint'']" "[''Person'']" "\<lparr>openAPI = [''info'']\<rparr>"]
  by (simp add: execute_def)

section \<open>TypeArgumentModel\<close>

text \<open>
  C7. The two constructions give models of the one interface: \<open>of\<close> on a
  \<open>TypeArgument\<close> gives a source model exactly when origin and parent are both not
  null, \<open>of\<close> on an \<open>AnnotatedType\<close> gives a reflection model exactly when the origin is
  not null, whatever the parent, each throws \<open>NullPointerException\<close> otherwise, and
  every model either one gives answers true to \<open>isTypeArgument()\<close>.
\<close>

theorem typeArgumentModel_of:
  fixes origin :: "'ta option" and parent :: "'p option" and origin' :: "'at option"
    and m :: "('ta, 'at, 'p) TypeArgumentModel"
  shows "(of_TypeArgument origin parent :: java_exception + ('ta, 'at, 'p) TypeArgumentModel)
           = (case (origin, parent) of
                (Some o', Some p') \<Rightarrow> Inr (TypeArgumentSourceModel o' p')
              | _ \<Rightarrow> Inl NullPointerException)
       \<and> (of_AnnotatedType origin' parent :: java_exception + ('ta, 'at, 'p) TypeArgumentModel)
           = (case origin' of
                Some o' \<Rightarrow> Inr (TypeArgumentReflectionModel o' parent)
              | None \<Rightarrow> Inl NullPointerException)
       \<and> (of_TypeArgument origin parent = Inr m \<or> of_AnnotatedType origin' parent = Inr m
            \<longrightarrow> isTypeArgument m)"
  by (simp add: of_TypeArgument_def of_AnnotatedType_def requireNonNull_def isTypeArgument_def
      split: option.split)

theorem typeArgumentModel_of_witness:
  "(of_TypeArgument (Some ''T'') (Some ''List'')
      :: java_exception + (string, string, string) TypeArgumentModel)
     = Inr (TypeArgumentSourceModel ''T'' ''List'')
   \<and> (of_AnnotatedType (Some ''String'') None
      :: java_exception + (string, string, string) TypeArgumentModel)
     = Inr (TypeArgumentReflectionModel ''String'' None)
   \<and> isTypeArgument (TypeArgumentSourceModel ''T'' ''List''
        :: (string, string, string) TypeArgumentModel)"
  using typeArgumentModel_of
    [of "Some ''T''" "Some ''List''" "Some ''String''" "TypeArgumentSourceModel ''T'' ''List''"]
    typeArgumentModel_of
    [of "Some ''T''" None "Some ''String''" "TypeArgumentSourceModel ''T'' ''List''"]
  by simp

section \<open>EndpointsValidator\<close>

text \<open>
  C10. \<open>process\<close> returns normally when the class set is null or holds no class
  annotated with \<open>@Endpoint\<close>, and throws \<open>ServletException\<close> when the set holds such a
  class and the class to check cannot be loaded.
\<close>

theorem process_validates:
  "(classSet = None \<or> (\<exists>classes. classSet = Some classes \<and> \<not> list_ex isEndpoint classes)
      \<longrightarrow> process classToCheck loadable classSet = Inr ())
   \<and> ((\<exists>classes. classSet = Some classes \<and> list_ex isEndpoint classes) \<and> \<not> loadable classToCheck
      \<longrightarrow> process classToCheck loadable classSet = Inl ServletException)"
  by (auto simp add: process_def)

theorem process_validates_witness:
  "process ''foo.bar.Baz'' (\<lambda>n. False) None = Inr ()
   \<and> process ''foo.bar.Baz'' (\<lambda>n. False)
       (Some [\<lparr>class_name = ''WithoutConnectEndpoint'', annotations = []\<rparr>]) = Inr ()
   \<and> list_ex isEndpoint [WithConnectEndpoint]
   \<and> process ''foo.bar.Baz'' (\<lambda>n. False) (Some [WithConnectEndpoint]) = Inl ServletException"
  using process_validates [of None "''foo.bar.Baz''" "\<lambda>n. False"]
    process_validates [of "Some [\<lparr>class_name = ''WithoutConnectEndpoint'', annotations = []\<rparr>]"
      "''foo.bar.Baz''" "\<lambda>n. False"]
    process_validates [of "Some [WithConnectEndpoint]" "''foo.bar.Baz''" "\<lambda>n. False"]
  by (simp add: isEndpoint_def WithConnectEndpoint_def)

end
